theory Spec2Isabelle
  imports Main "HOL-Library.AList"
begin

chapter \<open>The erpc request-handling core\<close>

text \<open>
  A shallow embedding of the library's route matcher and connection event router (the
  module imported as \<^verbatim>\<open>./websocket\<close>, which is the second part of
  \<^verbatim>\<open>packages/erpc/lib/error.ts\<close>; line numbers below are those of that file), its error
  kinds (the first part of the same file) and their translation
  (\<^verbatim>\<open>transformERPCError\<close>, in \<^verbatim>\<open>unnamed/part_000\<close>), the procedure builder
  (\<^verbatim>\<open>lib/middleware.ts\<close>), and the error handler and the upgrade dispatcher of the
  server (\<^verbatim>\<open>lib/server.ts\<close>).

  Conventions. A JavaScript string is a \<^typ>\<open>string\<close>, read as the list of its UTF-8
  bytes: the matcher uses only equality, the first character and dropping the first
  character, the socket the length in bytes of the reason of a close frame. A plain object
  used as a dictionary is an association list in property order with distinct keys. A
  promise is its outcome: a rejection is a value of a type of failures, a resolution the
  resolved value. Of Express and of the socket library the documented behaviour of the
  calls the code makes is modelled: how \<^verbatim>\<open>next\<close> reads its argument, and when
  \<^verbatim>\<open>res.json\<close> and \<^verbatim>\<open>ws.close\<close> throw.
\<close>

section \<open>Dictionaries\<close>

type_synonym 'v dict = "(string \<times> 'v) list"

text \<open>
  \<^verbatim>\<open>obj[k] = v\<close> on an object created by the literal \<^verbatim>\<open>{}\<close>, with a string \<open>v\<close>. An
  existing property keeps its place, a new one is added last. The key \<^verbatim>\<open>__proto__\<close> is
  the one exception of the language: it resolves to the accessor inherited from
  \<^verbatim>\<open>Object.prototype\<close>, whose setter ignores a value that is neither an object nor null,
  so no property is created.
\<close>

definition assign :: "string \<Rightarrow> string \<Rightarrow> string dict \<Rightarrow> string dict" where
  "assign k v obj = (if k = ''__proto__'' then obj else AList.update k v obj)"

text \<open>
  \<^verbatim>\<open>{ ...a, ...b }\<close>: the properties of \<open>a\<close> in order, then each property of \<open>b\<close> defined
  on the copy; a property of \<open>b\<close> replaces the value of a property of \<open>a\<close> with the same
  key.
\<close>

definition spread :: "'v dict \<Rightarrow> 'v dict \<Rightarrow> 'v dict" where
  "spread a b = fold (\<lambda>(k, v). AList.update k v) b a"

section \<open>Route trees and the path matcher\<close>

text \<open>
  \<^verbatim>\<open>RawRoutingEngine<T>\<close>: an object whose values are terminals (functions) or nested
  objects; the list is what \<^verbatim>\<open>Object.entries\<close> returns.
\<close>

datatype 'a subroute = RawFn 'a | RawTree "(string \<times> 'a subroute) list"

text \<open>\<^verbatim>\<open>CompiledRoutingEngine<T> = [string[], CompiledRoutingEngine<T> | (() => T)][]\<close>.\<close>

datatype 'a subrouter = Fn 'a | Tree "(string list \<times> 'a subrouter) list"

type_synonym 'a CompiledRoutingEngine = "(string list \<times> 'a subrouter) list"

text \<open>\<^verbatim>\<open>type Matched<T> = { variables: { [key: string]: string }; getValue: () => T }\<close>.\<close>

record 'a Matched =
  variables :: "string dict"
  getValue :: 'a

definition removeWrappingSlashes :: "string \<Rightarrow> string" where
  "removeWrappingSlashes str =
     (case str of
        [] \<Rightarrow> str
      | c # rest \<Rightarrow>
          if c = CHR ''/'' then rest
          else if last str = CHR ''/'' then butlast str
          else str)"

text \<open>\<^verbatim>\<open>str.split(sep)\<close> for a one-character separator.\<close>

fun js_split :: "string \<Rightarrow> char \<Rightarrow> string list" where
  "js_split [] sep = [[]]"
| "js_split (c # cs) sep =
     (if c = sep then [] # js_split cs sep
      else (case js_split cs sep of
              [] \<Rightarrow> [[c]]
            | w # ws \<Rightarrow> (c # w) # ws))"

fun compileRouteTree :: "(string \<times> 'a subroute) list \<Rightarrow> 'a CompiledRoutingEngine" where
  "compileRouteTree h =
     map (\<lambda>(path, subroute).
            (js_split (removeWrappingSlashes path) (CHR ''/''),
             case subroute of
               RawFn f \<Rightarrow> Fn f
             | RawTree r \<Rightarrow> Tree (compileRouteTree r))) h"

definition startsWith :: "string \<Rightarrow> char \<Rightarrow> bool" where
  "startsWith x c = (case x of [] \<Rightarrow> False | d # _ \<Rightarrow> d = c)"

text \<open>\<^verbatim>\<open>sr[0][0] === ""\<close>: the first segment of the entry's template is the empty string.\<close>

definition isIndex :: "string list \<times> 'a subrouter \<Rightarrow> bool" where
  "isIndex sr = (case fst sr of [] \<Rightarrow> False | s # _ \<Rightarrow> s = [])"

function getIndexHandler :: "'a CompiledRoutingEngine \<Rightarrow> 'a option" where
  "getIndexHandler c =
     (case find isIndex c of
        None \<Rightarrow> None
      | Some (p, Fn f) \<Rightarrow> Some f
      | Some (p, Tree t) \<Rightarrow> getIndexHandler t)"
  by pat_completeness auto
termination
proof (relation "measure (size_list (size_prod (\<lambda>x. 0) size))")
  show "wf (measure (size_list (size_prod (\<lambda>x. 0) size)))" by simp
next
  fix c :: "'a CompiledRoutingEngine" and x2 p sub t
  assume found: "find isIndex c = Some x2" and x2: "(p, sub) = x2" and sub: "sub = Tree t"
  have smaller: "find P d = Some (q, Tree u) \<Longrightarrow>
      size_list (size_prod (\<lambda>x. 0) size) u < size_list (size_prod (\<lambda>x. 0) size) d"
    for P and d :: "'a CompiledRoutingEngine" and q u
    by (induction d) (auto split: if_splits)
  from found x2 sub have "find isIndex c = Some (p, Tree t)" by simp
  from smaller [OF this]
  show "(t, c) \<in> measure (size_list (size_prod (\<lambda>x. 0) size))" by simp
qed

text \<open>
  The loop labelled \<^verbatim>\<open>checkPathSegments\<close> (lines 135 to 151) for one entry, started with
  the empty object \<^verbatim>\<open>variables\<close>: \<open>None\<close> is \<^verbatim>\<open>continue checkSubrouters\<close>. The loop runs only when the template
  is not longer than the input, so the last equation is never reached from
  \<open>matchPathToEndpoint\<close>.
\<close>

fun checkPathSegments :: "string list \<Rightarrow> string list \<Rightarrow> string dict \<Rightarrow> string dict option" where
  "checkPathSegments [] segments vars = Some vars"
| "checkPathSegments (x # path) (y # segments) vars =
     (if x = y then checkPathSegments path segments vars
      else if startsWith x (CHR '':'') then checkPathSegments path segments (assign (tl x) y vars)
      else None)"
| "checkPathSegments (x # path) [] vars = None"

fun matchPathToEndpoint :: "'a CompiledRoutingEngine \<Rightarrow> string list \<Rightarrow> 'a Matched option" where
  "matchPathToEndpoint [] segments = None"
| "matchPathToEndpoint ((path, subrouter) # heirarchy) segments =
     (if length path > length segments then matchPathToEndpoint heirarchy segments
      else if length path < length segments \<and> (case subrouter of Fn _ \<Rightarrow> True | Tree _ \<Rightarrow> False)
        then matchPathToEndpoint heirarchy segments
      else (case checkPathSegments path segments [] of
          None \<Rightarrow> matchPathToEndpoint heirarchy segments
        | Some vars \<Rightarrow>
           (if length path = length segments then
              (case subrouter of
                 Fn f \<Rightarrow> Some \<lparr>variables = vars, getValue = f\<rparr>
               | Tree t \<Rightarrow>
                  (case getIndexHandler t of
                     Some indexHandler \<Rightarrow> Some \<lparr>variables = vars, getValue = indexHandler\<rparr>
                   | None \<Rightarrow> matchPathToEndpoint heirarchy segments))
            else if length path < length segments then
              (case subrouter of
                 Fn f \<Rightarrow> matchPathToEndpoint heirarchy segments
               | Tree t \<Rightarrow>
                  (case matchPathToEndpoint t (drop (length path) segments) of
                     Some fn \<Rightarrow>
                       Some \<lparr>variables = spread vars (variables fn), getValue = getValue fn\<rparr>
                   | None \<Rightarrow> matchPathToEndpoint heirarchy segments))
            else matchPathToEndpoint heirarchy segments)))"

subsection \<open>The matching condition in the words of the specification\<close>

text \<open>
  An entry's literal segments agree with the input at every literal position: a segment
  that does not start with \<^verbatim>\<open>:\<close> equals the input segment at its position.
\<close>

definition literalsAgree :: "string list \<Rightarrow> string list \<Rightarrow> bool" where
  "literalsAgree path segments =
     list_all (\<lambda>(x, y). \<not> startsWith x (CHR '':'') \<longrightarrow> x = y) (zip path segments)"

text \<open>
  The condition on one entry, with the two subtree cases kept apart: an input as long as
  the template needs the index lookup of the subtree to succeed, a longer input needs the
  subtree to match the remaining segments.
\<close>

definition entryMatches :: "string list \<times> 'a subrouter \<Rightarrow> string list \<Rightarrow> bool" where
  "entryMatches e segments =
     (case e of (path, subrouter) \<Rightarrow>
        length path \<le> length segments \<and> literalsAgree path segments \<and>
        (case subrouter of
           Fn f \<Rightarrow> length segments = length path
         | Tree t \<Rightarrow>
             if length segments = length path then getIndexHandler t \<noteq> None
             else matchPathToEndpoint t (drop (length path) segments) \<noteq> None))"



section \<open>Failures and their translation\<close>

text \<open>\<^verbatim>\<open>ErrorMap\<close> and its keys, \<^verbatim>\<open>ErrorType = keyof typeof ErrorMap\<close>.\<close>

datatype ErrorType = BAD_REQUEST | UNAUTHORIZED | FORBIDDEN | NOT_FOUND | SERVER_ERROR

fun ErrorMap :: "ErrorType \<Rightarrow> int" where
  "ErrorMap BAD_REQUEST = 400"
| "ErrorMap UNAUTHORIZED = 401"
| "ErrorMap FORBIDDEN = 403"
| "ErrorMap NOT_FOUND = 404"
| "ErrorMap SERVER_ERROR = 500"

text \<open>The key itself, as the string that \<^verbatim>\<open>type\<close> holds at run time.\<close>

fun keyOf :: "ErrorType \<Rightarrow> string" where
  "keyOf BAD_REQUEST = ''BAD_REQUEST''"
| "keyOf UNAUTHORIZED = ''UNAUTHORIZED''"
| "keyOf FORBIDDEN = ''FORBIDDEN''"
| "keyOf NOT_FOUND = ''NOT_FOUND''"
| "keyOf SERVER_ERROR = ''SERVER_ERROR''"

record ERPCErrorOptions =
  code :: ErrorType
  message :: string
  customCode :: "int option"

text \<open>A JavaScript value as far as the library meets one, and its serialisation.\<close>

datatype json =
    JNull
  | JBool bool
  | JNumber int
  | JString string
  | JArray "json list"
  | JObject "(string \<times> json) list"

definition hexDigit :: "nat \<Rightarrow> char" where
  "hexDigit n = ''0123456789abcdef'' ! n"

text \<open>
  The escapes of \<^verbatim>\<open>JSON.stringify\<close> inside a string: the double quote (0x22), the
  backslash (0x5C) and the control characters. A string is read as its UTF-8 bytes, so
  that the length of a serialisation is its length in bytes.
\<close>

definition escapeChar :: "char \<Rightarrow> string" where
  "escapeChar c =
     (let n = (of_char c :: nat) in
      if n = 0x22 then [CHR 0x5C, CHR 0x22]
      else if n = 0x5C then [CHR 0x5C, CHR 0x5C]
      else if n = 0x08 then [CHR 0x5C, CHR ''b'']
      else if n = 0x09 then [CHR 0x5C, CHR ''t'']
      else if n = 0x0A then [CHR 0x5C, CHR ''n'']
      else if n = 0x0C then [CHR 0x5C, CHR ''f'']
      else if n = 0x0D then [CHR 0x5C, CHR ''r'']
      else if n < 0x20 then
        [CHR 0x5C, CHR ''u'', CHR ''0'', CHR ''0'', hexDigit (n div 16), hexDigit (n mod 16)]
      else [c])"

definition quote :: "string \<Rightarrow> string" where
  "quote s = CHR 0x22 # concat (map escapeChar s) @ [CHR 0x22]"

fun showNat :: "nat \<Rightarrow> string" where
  "showNat n = (if n < 10 then [hexDigit n] else showNat (n div 10) @ [hexDigit (n mod 10)])"

definition showInt :: "int \<Rightarrow> string" where
  "showInt i = (if i < 0 then CHR ''-'' # showNat (nat (- i)) else showNat (nat i))"

fun commaSep :: "string list \<Rightarrow> string" where
  "commaSep [] = []"
| "commaSep [x] = x"
| "commaSep (x # y # zs) = x @ CHR '','' # commaSep (y # zs)"

fun JSON_stringify :: "json \<Rightarrow> string" where
  "JSON_stringify JNull = ''null''"
| "JSON_stringify (JBool b) = (if b then ''true'' else ''false'')"
| "JSON_stringify (JNumber n) = showInt n"
| "JSON_stringify (JString s) = quote s"
| "JSON_stringify (JArray xs) = CHR ''['' # commaSep (map JSON_stringify xs) @ '']''"
| "JSON_stringify (JObject kvs) =
     CHR ''{'' #
       commaSep (map (\<lambda>kv. quote (fst kv) @ CHR '':'' # JSON_stringify (snd kv)) kvs) @ ''}''"

text \<open>
  What a promise of this library is rejected with: an \<^verbatim>\<open>ERPCError\<close>, another \<^verbatim>\<open>Error\<close>
  (with its message), or a value that is not an \<^verbatim>\<open>Error\<close> at all, \<open>None\<close> being
  \<^verbatim>\<open>undefined\<close>.
\<close>

datatype thrown = ERPCError ERPCErrorOptions | Error string | NonError "json option"

record transformed =
  status :: int
  error :: json

definition transformERPCError :: "thrown \<Rightarrow> transformed" where
  "transformERPCError err =
     (case err of
        ERPCError opts \<Rightarrow>
          \<lparr>status = (case customCode opts of Some c \<Rightarrow> c | None \<Rightarrow> ErrorMap (code opts)),
           error = JObject [(''type'', JString (keyOf (code opts))),
                            (''message'', JString (message opts))]\<rparr>
      | Error msg \<Rightarrow> \<lparr>status = 500, error = JString msg\<rparr>
      | NonError v \<Rightarrow> \<lparr>status = 500, error = JString ''Unknown internal server error''\<rparr>)"

subsection \<open>The error handler of the server\<close>






section \<open>Connections\<close>

text \<open>
  The socket, as the calls that took effect on it, in order: \<^verbatim>\<open>send\<close> with a text and
  \<^verbatim>\<open>close\<close> with a code and a reason. A socket without a \<open>Close\<close> is open.
\<close>

datatype socketCall = Send string | Close int string

type_synonym WebSocket = "socketCall list"

text \<open>
  \<^verbatim>\<open>ws.close(code, data)\<close> of the socket library on an open socket. The library throws,
  before any frame is written, a \<^verbatim>\<open>TypeError\<close> for a code that is not a valid close code
  and a \<^verbatim>\<open>RangeError\<close> for a reason longer than 123 bytes.
\<close>

definition isValidStatusCode :: "int \<Rightarrow> bool" where
  "isValidStatusCode c =
     ((1000 \<le> c \<and> c \<le> 1014 \<and> c \<noteq> 1004 \<and> c \<noteq> 1005 \<and> c \<noteq> 1006) \<or>
      (3000 \<le> c \<and> c \<le> 4999))"

definition ws_close :: "int \<Rightarrow> string \<Rightarrow> WebSocket \<Rightarrow> thrown + WebSocket" where
  "ws_close c reason ws =
     (if \<not> isValidStatusCode c then
        Inl (Error ''First argument must be a valid error code number'')
      else if length reason > 123 then
        Inl (Error ''The message must not be greater than 123 bytes'')
      else Inr (ws @ [Close c reason]))"

text \<open>
  An event handler resolves (\<open>None\<close>) or rejects, and may use the socket meanwhile. A
  validator is \<^verbatim>\<open>parseAsync\<close> of a schema: \<open>None\<close> when it rejects. The payload of a frame
  may be absent (\<^verbatim>\<open>undefined\<close>).
\<close>

type_synonym eventHandler = "json \<Rightarrow> WebSocket \<Rightarrow> thrown option \<times> WebSocket"

type_synonym validator = "json option \<Rightarrow> json option"

record Connection =
  socket :: WebSocket
  socketEventHandlerMap :: "string \<Rightarrow> eventHandler option"

definition emit :: "string \<Rightarrow> json \<Rightarrow> Connection \<Rightarrow> Connection" where
  "emit eventName data conn =
     conn\<lparr>socket := socket conn @
       [Send (JSON_stringify (JObject [(''eventName'', JString eventName), (''data'', data)]))]\<rparr>"

definition on :: "string \<Rightarrow> eventHandler \<Rightarrow> Connection \<Rightarrow> Connection" where
  "on eventName handler' conn =
     conn\<lparr>socketEventHandlerMap := (socketEventHandlerMap conn)(eventName \<mapsto> handler')\<rparr>"

text \<open>\<^verbatim>\<open>reqValidator = z.object({ eventName: z.string(), data: z.any() })\<close>.\<close>

definition reqValidator :: "json \<Rightarrow> (string \<times> json option) option" where
  "reqValidator parsed =
     (case parsed of
        JObject kvs \<Rightarrow>
          (case map_of kvs ''eventName'' of
             Some (JString eventName) \<Rightarrow> Some (eventName, map_of kvs ''data'')
           | _ \<Rightarrow> None)
      | _ \<Rightarrow> None)"

text \<open>What the \<^verbatim>\<open>try\<close> block of the message listener can throw, by the place it is thrown.\<close>

datatype raised =
    JsonSyntax
  | EnvelopeRejected
  | HandlerMissing string
  | ValidatorMissing string
  | PayloadRejected string
  | HandlerRejected thrown

text \<open>
  One run of the listener: the connection afterwards, the handler awaited (event name and
  validated payload) if one was, what the \<^verbatim>\<open>catch\<close> clause received, and what the
  listener itself rejects with.
\<close>

record dispatched =
  connection :: Connection
  awaited :: "(string \<times> json) option"
  caught :: "raised option"
  unhandled :: "raised option"

text \<open>
  The listener installed by the constructor of \<^verbatim>\<open>Connection\<close>, which closes over
  \<^verbatim>\<open>validators\<close>. \<^verbatim>\<open>JSON.parse\<close> is a parameter: \<open>None\<close> when it throws. The clause
  \<^verbatim>\<open>catch (err) {}\<close> receives whatever the block throws and does nothing.
\<close>

definition messageListener ::
  "(string \<Rightarrow> json option) \<Rightarrow> (string \<Rightarrow> validator option) \<Rightarrow> Connection \<Rightarrow> string \<Rightarrow> dispatched" where
  "messageListener JSON_parse validators' conn stringified =
     (let attempt =
        (case JSON_parse stringified of
           None \<Rightarrow> (Some JsonSyntax, conn, None)
         | Some parsed \<Rightarrow>
            (case reqValidator parsed of
               None \<Rightarrow> (Some EnvelopeRejected, conn, None)
             | Some (eventName, data) \<Rightarrow>
                (case socketEventHandlerMap conn eventName of
                   None \<Rightarrow> (Some (HandlerMissing eventName), conn, None)
                 | Some handler' \<Rightarrow>
                    (case validators' eventName of
                       None \<Rightarrow> (Some (ValidatorMissing eventName), conn, None)
                     | Some v \<Rightarrow>
                        (case v data of
                           None \<Rightarrow> (Some (PayloadRejected eventName), conn, None)
                         | Some parsedData \<Rightarrow>
                            (case handler' parsedData (socket conn) of
                               (Some err, ws) \<Rightarrow>
                                 (Some (HandlerRejected err), conn\<lparr>socket := ws\<rparr>,
                                  Some (eventName, parsedData))
                             | (None, ws) \<Rightarrow>
                                 (None, conn\<lparr>socket := ws\<rparr>,
                                  Some (eventName, parsedData))))))))
      in (case attempt of
            (Some err, conn', served) \<Rightarrow>
              \<lparr>connection = conn', awaited = served, caught = Some err, unhandled = None\<rparr>
          | (None, conn', served) \<Rightarrow>
              \<lparr>connection = conn', awaited = served, caught = None, unhandled = None\<rparr>))"

subsection \<open>The upgrade\<close>

text \<open>\<^verbatim>\<open>HeirarchyEnd\<close>: the validators of a connection route and its setup handler.\<close>

record HeirarchyEnd =
  validators :: "string \<Rightarrow> validator option"
  handler :: "Connection \<Rightarrow> string dict \<Rightarrow> string dict \<Rightarrow> thrown option \<times> Connection"

text \<open>
  The handler returned by \<^verbatim>\<open>createWebSocketHandler\<close>, from the call of the matcher on:
  the compiled routes, the path segments and the query of the request, and the socket that
  \<^verbatim>\<open>handleUpgrade\<close> delivers. \<open>None\<close>: no endpoint, no upgrade. Otherwise the connection
  afterwards, and what the promise chain \<^verbatim>\<open>handler(...).then(...).catch(...)\<close> is left
  rejected with: the callback given to \<^verbatim>\<open>catch\<close> throws what \<^verbatim>\<open>ws.close\<close> throws.
\<close>

definition createWebSocketHandler ::
  "HeirarchyEnd CompiledRoutingEngine \<Rightarrow> string list \<Rightarrow> string dict \<Rightarrow> WebSocket \<Rightarrow>
     (Connection \<times> thrown option) option" where
  "createWebSocketHandler compiledWsRouter segments query ws =
     (case matchPathToEndpoint compiledWsRouter segments of
        None \<Rightarrow> None
      | Some endpoint \<Rightarrow>
          (case handler (getValue endpoint)
                  \<lparr>socket = ws, socketEventHandlerMap = Map.empty\<rparr> (variables endpoint) query of
             (None, conn) \<Rightarrow>
               Some (conn\<lparr>socket := socket conn @ [Send ''@scinorandex/erpc -- stabilize'']\<rparr>,
                     None)
           | (Some err, conn) \<Rightarrow>
               (let t = transformERPCError err
                in (case ws_close (4000 + status t)
                           (JSON_stringify (JObject [(''error'', error t)])) (socket conn) of
                      Inr ws' \<Rightarrow> Some (conn\<lparr>socket := ws'\<rparr>, None)
                    | Inl thrownByClose \<Rightarrow> Some (conn, Some thrownByClose)))))"

section \<open>Procedures\<close>

subsection \<open>The builder, with its arrays in a store\<close>

text \<open>
  \<^verbatim>\<open>generateProcedure\<close> keeps the steps in the array \<^verbatim>\<open>previous\<close>, which its closures
  \<^verbatim>\<open>extend\<close> and \<^verbatim>\<open>use\<close> share and \<^verbatim>\<open>push\<close> mutates. The store holds every array
  allocated so far, an address is an index into it, and a procedure is the address of its
  \<^verbatim>\<open>previous\<close>.
\<close>

type_synonym addr = nat

type_synonym 'm store = "'m list list"

text \<open>An array literal or a spread copy \<^verbatim>\<open>[...xs]\<close>: a new array.\<close>

definition alloc :: "'m list \<Rightarrow> 'm store \<Rightarrow> addr \<times> 'm store" where
  "alloc xs st = (length st, st @ [xs])"

text \<open>\<^verbatim>\<open>arr.push(x)\<close>: in place.\<close>

definition push :: "addr \<Rightarrow> 'm \<Rightarrow> 'm store \<Rightarrow> 'm store" where
  "push a x st = st[a := st ! a @ [x]]"

definition generateProcedure :: "'m \<Rightarrow> addr option \<Rightarrow> 'm store \<Rightarrow> addr \<times> 'm store" where
  "generateProcedure mw ctx st =
     (let (previous, st1) = alloc (case ctx of None \<Rightarrow> [] | Some p \<Rightarrow> st ! p) st
      in (previous, push previous mw st1))"

definition extend :: "addr \<Rightarrow> 'm \<Rightarrow> 'm store \<Rightarrow> addr \<times> 'm store" where
  "extend previous append' st =
     (let (copy, st1) = alloc (st ! previous) st
      in generateProcedure append' (Some copy) st1)"

subsection \<open>The finalised chain\<close>

text \<open>
  A step reads the request and the context accumulated so far (\<^verbatim>\<open>res.locals\<close>) and
  resolves to an object, given by its entries, or rejects.
\<close>

type_synonym ('q, 'v) Middleware = "'q \<Rightarrow> 'v dict \<Rightarrow> thrown + 'v dict"

text \<open>
  What a layer built by \<^verbatim>\<open>use\<close> ends with: \<^verbatim>\<open>next()\<close>, \<^verbatim>\<open>next(err)\<close>, or
  \<^verbatim>\<open>res.json({ success: true, result })\<close>.
\<close>

datatype 'r layerCall = Next | NextErr thrown | JsonSuccess 'r

type_synonym ('q, 'v, 'r) layer = "'q \<Rightarrow> 'v dict \<Rightarrow> 'v dict \<times> 'r layerCall"

text \<open>
  The wrapper of one step: on success each returned entry is assigned to \<^verbatim>\<open>res.locals\<close>
  (an object without prototype, so every key is an ordinary property), then \<^verbatim>\<open>next()\<close>.
\<close>

definition stepLayer :: "('q, 'v) Middleware \<Rightarrow> ('q, 'v, 'r) layer" where
  "stepLayer mwFunction req locals =
     (case mwFunction req locals of
        Inr result \<Rightarrow> (fold (\<lambda>(key, value). AList.update key value) result locals, Next)
      | Inl err \<Rightarrow> (locals, NextErr err))"

definition handlerLayer :: "('q \<Rightarrow> 'v dict \<Rightarrow> thrown + 'r) \<Rightarrow> ('q, 'v, 'r) layer" where
  "handlerLayer handler' req locals =
     (case handler' req locals of
        Inr result \<Rightarrow> (locals, JsonSuccess result)
      | Inl err \<Rightarrow> (locals, NextErr err))"

definition use ::
  "('q, 'v) Middleware list \<Rightarrow> ('q \<Rightarrow> 'v dict \<Rightarrow> thrown + 'r) \<Rightarrow> ('q, 'v, 'r) layer list" where
  "use previous handler' = map stepLayer previous @ [handlerLayer handler']"

text \<open>
  How the router of Express reads the argument of \<^verbatim>\<open>next(err)\<close>: the string
  \<^verbatim>\<open>route\<close> and every falsy value (\<^verbatim>\<open>undefined\<close>, \<^verbatim>\<open>null\<close>, \<^verbatim>\<open>false\<close>, \<^verbatim>\<open>0\<close>, the
  empty string) are no error, and the next layer is entered as after \<^verbatim>\<open>next()\<close>; the
  string \<^verbatim>\<open>router\<close> leaves the router without error; anything else is an error, which
  skips the remaining layers and is handed to the error handler.
\<close>

datatype routing = EnterNextLayer | LeaveRouter | ToErrorHandler

fun truthy :: "json option \<Rightarrow> bool" where
  "truthy None = False"
| "truthy (Some JNull) = False"
| "truthy (Some (JBool b)) = b"
| "truthy (Some (JNumber n)) = (n \<noteq> 0)"
| "truthy (Some (JString s)) = (s \<noteq> [])"
| "truthy (Some (JArray xs)) = True"
| "truthy (Some (JObject kvs)) = True"

definition expressNext :: "thrown \<Rightarrow> routing" where
  "expressNext err =
     (case err of
        NonError v \<Rightarrow>
          if v = Some (JString ''route'') then EnterNextLayer
          else if v = Some (JString ''router'') then LeaveRouter
          else if truthy v then ToErrorHandler
          else EnterNextLayer
      | _ \<Rightarrow> ToErrorHandler)"

text \<open>
  Express running the layers of one router for one request. The trace lists what ran, in
  order: each layer entered, with its position and the context it saw, and how the
  request left the chain.
\<close>

datatype ('v, 'r) event =
    Invoked nat "'v dict"
  | ErrorHandler thrown
  | Responded 'r
  | LeftChain

fun dispatch :: "('q, 'v, 'r) layer list \<Rightarrow> nat \<Rightarrow> 'q \<Rightarrow> 'v dict \<Rightarrow> ('v, 'r) event list" where
  "dispatch [] i req locals = [LeftChain]"
| "dispatch (l # ls) i req locals =
     Invoked i locals #
       (case l req locals of
          (locals', Next) \<Rightarrow> dispatch ls (Suc i) req locals'
        | (locals', NextErr err) \<Rightarrow>
            (case expressNext err of
               ToErrorHandler \<Rightarrow> [ErrorHandler err]
             | EnterNextLayer \<Rightarrow> dispatch ls (Suc i) req locals'
             | LeaveRouter \<Rightarrow> [LeftChain])
        | (locals', JsonSuccess result) \<Rightarrow> [Responded result])"

text \<open>The positions of the layers entered, and the failures handed to the error handler.\<close>

fun invoked :: "('v, 'r) event list \<Rightarrow> nat list" where
  "invoked [] = []"
| "invoked (Invoked i locals # es) = i # invoked es"
| "invoked (e # es) = invoked es"

fun failures :: "('v, 'r) event list \<Rightarrow> thrown list" where
  "failures [] = []"
| "failures (ErrorHandler err # es) = err # failures es"
| "failures (e # es) = failures es"

text \<open>
  The context after a run of steps that all succeed, in the words of the specification:
  each step's entries are merged into the context, the later writer of a key winning.
\<close>

fun accumulate :: "('q, 'v) Middleware list \<Rightarrow> 'q \<Rightarrow> 'v dict \<Rightarrow> 'v dict option" where
  "accumulate [] req locals = Some locals"
| "accumulate (mw # mws) req locals =
     (case mw req locals of
        Inl err \<Rightarrow> None
      | Inr result \<Rightarrow> accumulate mws req (spread locals result))"

chapter \<open>Properties\<close>

section \<open>Dictionaries\<close>

lemma distinct_assign: "distinct (map fst obj) \<Longrightarrow> distinct (map fst (assign k v obj))"
  by (simp add: assign_def distinct_update)

lemma map_of_assign:
  "map_of (assign k v obj) = (if k = ''__proto__'' then map_of obj else (map_of obj)(k \<mapsto> v))"
  by (simp add: assign_def update_conv')

lemma distinct_spread: "distinct (map fst a) \<Longrightarrow> distinct (map fst (spread a b))"
  unfolding spread_def
  by (induction b arbitrary: a) (auto simp: distinct_update)

lemma map_of_spread:
  "distinct (map fst b) \<Longrightarrow>
     map_of (spread a b) k = (case map_of b k of Some v \<Rightarrow> Some v | None \<Rightarrow> map_of a k)"
  unfolding spread_def
proof (induction b arbitrary: a)
  case Nil
  show ?case by simp
next
  case (Cons e b)
  obtain k' v' where e: "e = (k', v')" by (cases e)
  from Cons.prems e have d: "distinct (map fst b)" and n: "k' \<notin> fst ` set b" by auto
  from n have "map_of b k' = None" by (simp add: map_of_eq_None_iff)
  with Cons.IH [OF d, of "AList.update k' v' a"] e show ?case
    by (auto simp: update_conv' split: option.splits)
qed

section \<open>The path matcher\<close>

subsection \<open>The segment comparison\<close>

lemma checkPathSegments_success:
  "(checkPathSegments path segments vars \<noteq> None) =
     (length path \<le> length segments \<and> literalsAgree path segments)"
  by (induction path segments vars rule: checkPathSegments.induct)
     (auto simp: literalsAgree_def)

lemma distinct_checkPathSegments:
  "checkPathSegments path segments vars = Some vars' \<Longrightarrow> distinct (map fst vars) \<Longrightarrow>
     distinct (map fst vars')"
  by (induction path segments vars rule: checkPathSegments.induct)
     (auto simp: distinct_assign split: if_splits)

lemma checkPathSegments_append:
  "length pre = length ys \<Longrightarrow>
     checkPathSegments (pre @ rest) (ys @ zs) vars =
       (case checkPathSegments pre ys vars of
          None \<Rightarrow> None
        | Some v \<Rightarrow> checkPathSegments rest zs v)"
  by (induction pre ys arbitrary: vars rule: list_induct2) simp_all

lemma startsWith_Cons: "startsWith x c \<Longrightarrow> x = c # tl x"
  by (cases x) (simp_all add: startsWith_def)

lemma checkPathSegments_keeps:
  "checkPathSegments post zs vars = Some vars' \<Longrightarrow> map_of vars name = Some s \<Longrightarrow>
     (CHR '':'' # name) \<notin> set post \<Longrightarrow> map_of vars' name = Some s"
proof (induction post zs vars rule: checkPathSegments.induct)
  case (1 segments vars)
  then show ?case by simp
next
  case (2 x path y segments vars)
  show ?case
  proof (cases "x = y")
    case True
    with 2 show ?thesis by simp
  next
    case False
    with "2.prems"(1) have sw: "startsWith x (CHR '':'')" by (simp split: if_splits)
    from startsWith_Cons [OF sw] "2.prems"(3) have "tl x \<noteq> name" by auto
    then have "map_of (assign (tl x) y vars) name = Some s"
      using "2.prems"(2) by (simp add: map_of_assign)
    with 2 False sw show ?thesis by simp
  qed
next
  case (3 x path vars)
  then show ?case by simp
qed

lemma literalsAgree_append:
  "length pre = length ys \<Longrightarrow>
     literalsAgree (pre @ rest) (ys @ zs) = (literalsAgree pre ys \<and> literalsAgree rest zs)"
  by (simp add: literalsAgree_def)

subsection \<open>One entry at a time\<close>

lemma match_single_shorter:
  "length segments < length path \<Longrightarrow> matchPathToEndpoint [(path, subrouter)] segments = None"
  by simp

lemma match_single_equal:
  "length path = length segments \<Longrightarrow>
     matchPathToEndpoint [(path, subrouter)] segments =
       (case checkPathSegments path segments [] of
          None \<Rightarrow> None
        | Some vars \<Rightarrow>
            (case subrouter of
               Fn f \<Rightarrow> Some \<lparr>variables = vars, getValue = f\<rparr>
             | Tree t \<Rightarrow>
                 (case getIndexHandler t of
                    None \<Rightarrow> None
                  | Some indexHandler \<Rightarrow> Some \<lparr>variables = vars, getValue = indexHandler\<rparr>)))"
  by (simp split: option.splits subrouter.splits)

lemma match_single_longer:
  "length path < length segments \<Longrightarrow>
     matchPathToEndpoint [(path, Tree t)] segments =
       (case checkPathSegments path segments [] of
          None \<Rightarrow> None
        | Some vars \<Rightarrow>
            (case matchPathToEndpoint t (drop (length path) segments) of
               None \<Rightarrow> None
             | Some fn \<Rightarrow>
                 Some \<lparr>variables = spread vars (variables fn), getValue = getValue fn\<rparr>))"
  by (simp split: option.splits)

lemma match_single_longer_Fn:
  "length path < length segments \<Longrightarrow> matchPathToEndpoint [(path, Fn f)] segments = None"
  by simp

lemma match_cons:
  "matchPathToEndpoint (e # heirarchy) segments =
     (case matchPathToEndpoint [e] segments of
        Some m \<Rightarrow> Some m
      | None \<Rightarrow> matchPathToEndpoint heirarchy segments)"
proof (cases e)
  case (Pair path subrouter)
  show ?thesis
    unfolding Pair
    by (simp split: option.splits subrouter.splits)
qed

declare matchPathToEndpoint.simps [simp del]

lemma match_single_iff:
  "(matchPathToEndpoint [e] segments \<noteq> None) = entryMatches e segments"
proof (cases e)
  case (Pair path subrouter)
  consider (shorter) "length segments < length path" | (equal) "length path = length segments"
    | (longer) "length path < length segments" by linarith
  then show ?thesis
  proof cases
    case shorter
    then show ?thesis
      by (simp add: Pair match_single_shorter entryMatches_def)
  next
    case equal
    show ?thesis
      using checkPathSegments_success [of path segments "[]"] equal
      by (cases "checkPathSegments path segments []"; cases subrouter)
         (simp_all add: Pair match_single_equal entryMatches_def split: option.splits)
  next
    case longer
    show ?thesis
    proof (cases subrouter)
      case (Fn f)
      with longer show ?thesis
        by (simp add: Pair match_single_longer_Fn entryMatches_def)
    next
      case (Tree t)
      show ?thesis
        using checkPathSegments_success [of path segments "[]"] longer
        by (cases "checkPathSegments path segments []")
           (simp_all add: Pair Tree match_single_longer entryMatches_def split: option.splits)
    qed
  qed
qed

lemma match_find:
  "matchPathToEndpoint heirarchy segments =
     (case find (\<lambda>e. entryMatches e segments) heirarchy of
        None \<Rightarrow> None
      | Some e \<Rightarrow> matchPathToEndpoint [e] segments)"
proof (induction heirarchy)
  case Nil
  show ?case by (simp add: matchPathToEndpoint.simps)
next
  case (Cons e heirarchy)
  show ?case
  proof (cases "entryMatches e segments")
    case True
    then obtain m where "matchPathToEndpoint [e] segments = Some m"
      using match_single_iff [of e segments] by auto
    with True show ?thesis
      by (simp add: match_cons [of e heirarchy])
  next
    case False
    then have "matchPathToEndpoint [e] segments = None"
      using match_single_iff [of e segments] by simp
    with False Cons show ?thesis
      by (simp add: match_cons [of e heirarchy])
  qed
qed


lemma match_find_Some:
  "matchPathToEndpoint heirarchy segments = Some m \<Longrightarrow>
     \<exists>e. find (\<lambda>e. entryMatches e segments) heirarchy = Some e \<and>
         matchPathToEndpoint [e] segments = Some m"
  using match_find [of heirarchy segments]
  by (cases "find (\<lambda>e. entryMatches e segments) heirarchy") simp_all

lemma match_single_result:
  assumes "matchPathToEndpoint [(path, subrouter)] segments = Some m"
  shows "\<exists>outer. checkPathSegments path segments [] = Some outer \<and>
       (if length path = length segments then variables m = outer
        else \<exists>t inner. subrouter = Tree t \<and> length path < length segments \<and>
               matchPathToEndpoint t (drop (length path) segments) = Some inner \<and>
               m = \<lparr>variables = spread outer (variables inner), getValue = getValue inner\<rparr>)"
proof -
  consider (shorter) "length segments < length path" | (equal) "length path = length segments"
    | (longer) "length path < length segments" by linarith
  then show ?thesis
  proof cases
    case shorter
    from assms show ?thesis by (simp add: match_single_shorter [OF shorter])
  next
    case equal
    from assms obtain outer where o: "checkPathSegments path segments [] = Some outer"
      by (cases "checkPathSegments path segments []") (simp_all add: match_single_equal [OF equal])
    from assms o have "variables m = outer"
      by (cases subrouter; cases "getIndexHandler (case subrouter of Tree t \<Rightarrow> t | _ \<Rightarrow> [])")
         (auto simp add: match_single_equal [OF equal])
    with o equal show ?thesis by simp
  next
    case longer
    from assms obtain t where t: "subrouter = Tree t"
      by (cases subrouter) (simp_all add: match_single_longer_Fn [OF longer])
    from assms obtain outer where o: "checkPathSegments path segments [] = Some outer"
      by (cases "checkPathSegments path segments []")
         (simp_all add: t match_single_longer [OF longer])
    from assms o obtain inner where
      i: "matchPathToEndpoint t (drop (length path) segments) = Some inner"
      by (cases "matchPathToEndpoint t (drop (length path) segments)")
         (simp_all add: t match_single_longer [OF longer])
    from assms o i have
      "m = \<lparr>variables = spread outer (variables inner), getValue = getValue inner\<rparr>"
      by (simp add: t match_single_longer [OF longer])
    with o i t longer show ?thesis by simp
  qed
qed

lemma distinct_match:
  fixes heirarchy :: "'a CompiledRoutingEngine"
  assumes "matchPathToEndpoint heirarchy segments = Some m"
  shows "distinct (map fst (variables m))"
proof -
  from match_find_Some [OF assms] obtain path subrouter where
    s: "matchPathToEndpoint [(path, subrouter)] segments = Some m"
    by (metis prod.exhaust)
  from match_single_result [OF s] obtain outer where
    o: "checkPathSegments path segments [] = Some outer" and
    r: "if length path = length segments then variables m = outer
        else \<exists>t inner. subrouter = Tree t \<and> length path < length segments \<and>
               matchPathToEndpoint t (drop (length path) segments) = Some inner \<and>
               m = \<lparr>variables = spread outer (variables inner), getValue = getValue inner\<rparr>"
    by blast
  from o have d: "distinct (map fst outer)"
    using distinct_checkPathSegments [of path segments "[]" outer] by simp
  show ?thesis
  proof (cases "length path = length segments")
    case True
    with r d show ?thesis by simp
  next
    case False
    with r have "\<exists>t inner. subrouter = Tree t \<and> length path < length segments \<and>
               matchPathToEndpoint t (drop (length path) segments) = Some inner \<and>
               m = \<lparr>variables = spread outer (variables inner), getValue = getValue inner\<rparr>"
      by simp
    then obtain inner :: "'a Matched" where
      "m = \<lparr>variables = spread outer (variables inner), getValue = getValue inner\<rparr>" by blast
    then have "variables m = spread outer (variables inner)" by simp
    with d show ?thesis by (simp add: distinct_spread)
  qed
qed

subsection \<open>The scenario of the specification\<close>


lemma scenario_split:
  "js_split (removeWrappingSlashes ''/user/7/msg/9'') (CHR ''/'') = [''user'', ''7'', ''msg'', ''9'']"
  by (simp add: removeWrappingSlashes_def)


subsection \<open>Claims on the matcher\<close>




text \<open>
  Claim C7. When the entry selected for an input is a subtree and the input is longer
  than its template, the variables of the result are the bindings of this level
  (\<open>outer\<close>) merged with the variables of the recursive result (\<open>inner\<close>); a name bound by
  both has the inner value.
\<close>

theorem inner_bindings_take_precedence:
  fixes heirarchy :: "'a CompiledRoutingEngine"
  assumes "find (\<lambda>e. entryMatches e segments) heirarchy = Some (path, Tree t)"
    and "length path < length segments"
  shows "\<exists>outer inner.
           checkPathSegments path segments [] = Some outer \<and>
           matchPathToEndpoint t (drop (length path) segments) = Some inner \<and>
           matchPathToEndpoint heirarchy segments =
             Some \<lparr>variables = spread outer (variables inner), getValue = getValue inner\<rparr> \<and>
           (\<forall>k. map_of (spread outer (variables inner)) k =
                  (case map_of (variables inner) k of
                     Some v \<Rightarrow> Some v
                   | None \<Rightarrow> map_of outer k))"
proof -
  from assms(1) have whole:
    "matchPathToEndpoint heirarchy segments = matchPathToEndpoint [(path, Tree t)] segments"
    using match_find [of heirarchy segments] by simp
  from assms(1) have "entryMatches (path, Tree t) segments"
    by (auto simp: find_Some_iff)
  then obtain m where m: "matchPathToEndpoint [(path, Tree t)] segments = Some m"
    using match_single_iff [of "(path, Tree t)" segments] by auto
  from match_single_result [OF m] assms(2) obtain outer and inner :: "'a Matched" where
    o: "checkPathSegments path segments [] = Some outer" and
    i: "matchPathToEndpoint t (drop (length path) segments) = Some inner" and
    r: "m = \<lparr>variables = spread outer (variables inner), getValue = getValue inner\<rparr>"
    by auto
  from distinct_match [OF i] have
    "\<forall>k. map_of (spread outer (variables inner)) k =
        (case map_of (variables inner) k of Some v \<Rightarrow> Some v | None \<Rightarrow> map_of outer k)"
    by (simp add: map_of_spread)
  with o i r m whole show ?thesis by auto
qed

text \<open>
  Both levels of \<^verbatim>\<open>{"/:id": {"/:id": handler}}\<close> bind \<^verbatim>\<open>id\<close>; for the input \<^verbatim>\<open>1, 2\<close>
  the result binds it to the inner value \<^verbatim>\<open>2\<close>.
\<close>

theorem inner_bindings_take_precedence_witness:
  "matchPathToEndpoint [(['':id''], Tree [(['':id''], Fn ''handler'')])] [''1'', ''2''] =
     Some \<lparr>variables = [(''id'', ''2'')], getValue = ''handler''\<rparr>"
proof -
  have i: "matchPathToEndpoint [(['':id''], Fn ''handler'')] [''2''] =
      Some \<lparr>variables = [(''id'', ''2'')], getValue = ''handler''\<rparr>"
    by (simp add: matchPathToEndpoint.simps startsWith_def assign_def)
  have h1: "find (\<lambda>e. entryMatches e [''1'', ''2''])
        [(['':id''], Tree [(['':id''], Fn ''handler'')])] =
      Some (['':id''], Tree [(['':id''], Fn ''handler'')])"
    by (simp add: entryMatches_def literalsAgree_def startsWith_def i)
  have h2: "length ['':id''] < length [''1'', ''2'']" by simp
  have o: "checkPathSegments ['':id''] [''1'', ''2''] [] = Some [(''id'', ''1'')]"
    by (simp add: startsWith_def assign_def)
  from inner_bindings_take_precedence [OF h1 h2] obtain outer and inner :: "string Matched"
    where A: "checkPathSegments ['':id''] [''1'', ''2''] [] = Some outer"
      and B: "matchPathToEndpoint [(['':id''], Fn ''handler'')]
                (drop (length ['':id'']) [''1'', ''2'']) = Some inner"
      and C: "matchPathToEndpoint [(['':id''], Tree [(['':id''], Fn ''handler'')])]
                [''1'', ''2''] =
              Some \<lparr>variables = spread outer (variables inner), getValue = getValue inner\<rparr>"
    by blast
  from A o have "outer = [(''id'', ''1'')]" by simp
  moreover from B i have "inner = \<lparr>variables = [(''id'', ''2'')], getValue = ''handler''\<rparr>"
    by simp
  ultimately show ?thesis using C by (simp add: spread_def)
qed

text \<open>
  Where a variable segment binds. A variable segment \<^verbatim>\<open>:name\<close> at a position of the
  template never makes the comparison fail, whatever the input segment \<open>s\<close> at that
  position is. When \<open>s\<close> is not the text \<^verbatim>\<open>:name\<close> of the template segment itself,
  \<open>name\<close> is not \<^verbatim>\<open>__proto__\<close>, and no later segment of the template is the same
  variable, \<open>s\<close> is bound under \<open>name\<close> in the variables the comparison produces, for
  every kind of entry.
\<close>

lemma variable_segment_binds:
  assumes "length pre = length ys"
  shows "((checkPathSegments (pre @ (CHR '':'' # name) # post) (ys @ s # zs) vars \<noteq> None) =
            (checkPathSegments (pre @ post) (ys @ zs) vars \<noteq> None)) \<and>
         (s \<noteq> CHR '':'' # name \<and> name \<noteq> ''__proto__'' \<and> (CHR '':'' # name) \<notin> set post \<longrightarrow>
            (\<forall>vars'. checkPathSegments (pre @ (CHR '':'' # name) # post) (ys @ s # zs) vars
                        = Some vars' \<longrightarrow> map_of vars' name = Some s))"
proof -
  have success: "(checkPathSegments (pre @ (CHR '':'' # name) # post) (ys @ s # zs) vars \<noteq> None) =
            (checkPathSegments (pre @ post) (ys @ zs) vars \<noteq> None)"
    unfolding checkPathSegments_success
    using assms
    by (simp add: literalsAgree_append) (simp add: literalsAgree_def startsWith_def)
  have bound: "map_of vars' name = Some s"
    if neq: "s \<noteq> CHR '':'' # name" and proto: "name \<noteq> ''__proto__''"
      and later: "(CHR '':'' # name) \<notin> set post"
      and res: "checkPathSegments (pre @ (CHR '':'' # name) # post) (ys @ s # zs) v0 = Some vars'"
    for vars' v0
  proof -
    from res obtain v1 where v1: "checkPathSegments pre ys v0 = Some v1"
      and rest: "checkPathSegments ((CHR '':'' # name) # post) (s # zs) v1 = Some vars'"
      by (cases "checkPathSegments pre ys v0")
         (simp_all add: checkPathSegments_append [OF assms])
    from rest neq have tail: "checkPathSegments post zs (assign name s v1) = Some vars'"
      by (auto simp: startsWith_def)
    have "map_of (assign name s v1) name = Some s"
      using proto by (simp add: map_of_assign)
    from checkPathSegments_keeps [OF tail this later] show ?thesis .
  qed
  from success bound show ?thesis by blast
qed

text \<open>
  Claim C8: for every variable segment and every input segment \<open>s\<close> at its position the
  comparison succeeds and \<open>s\<close> is bound under the declared name, for any string \<open>s\<close>. The
  code does not do this for the string that is the text of the template segment. The
  route \<^verbatim>\<open>/:id\<close> and the request path \<^verbatim>\<open>/:id\<close>: the loop tests \<^verbatim>\<open>x === y\<close>, the
  test for literal segments, before it looks whether \<open>x\<close> is a variable, so the entry
  matches and \<^verbatim>\<open>id\<close> is bound to nothing, where the path \<^verbatim>\<open>/7\<close> binds it to \<^verbatim>\<open>7\<close>.
\<close>

theorem variable_equal_to_template_unbound:
  "matchPathToEndpoint (compileRouteTree [(''/:id'', RawFn True)])
       (js_split (removeWrappingSlashes ''/:id'') (CHR ''/'')) =
     Some \<lparr>variables = [], getValue = True\<rparr> \<and>
   map_option (\<lambda>matched. map_of (variables matched) ''id'')
     (matchPathToEndpoint (compileRouteTree [(''/:id'', RawFn True)])
        (js_split (removeWrappingSlashes ''/:id'') (CHR ''/''))) = Some None \<and>
   matchPathToEndpoint (compileRouteTree [(''/:id'', RawFn True)])
       (js_split (removeWrappingSlashes ''/7'') (CHR ''/'')) =
     Some \<lparr>variables = [(''id'', ''7'')], getValue = True\<rparr>"
  by (simp add: matchPathToEndpoint.simps removeWrappingSlashes_def startsWith_def assign_def)

section \<open>Failures and the error handler\<close>











section \<open>Procedures\<close>

subsection \<open>The builder\<close>

lemma generateProcedure_eq:
  "generateProcedure mw ctx st =
     (length st, st @ [(case ctx of None \<Rightarrow> [] | Some p \<Rightarrow> st ! p) @ [mw]])"
  by (simp add: generateProcedure_def alloc_def push_def)

lemma extend_eq:
  "P < length st \<Longrightarrow> extend P s st = (Suc (length st), st @ [st ! P, st ! P @ [s]])"
  by (simp add: extend_def alloc_def generateProcedure_eq nth_append)

text \<open>
  Claim C6. For a procedure \<open>P\<close> (the address of its array of steps in the store) and a
  step \<open>s\<close>, \<open>extend\<close> returns a new procedure \<open>C\<close> whose steps are those of \<open>P\<close> with \<open>s\<close>
  appended; the steps of \<open>P\<close>, and every array that existed before the call, are
  unchanged. A second child \<open>D\<close> derived from \<open>P\<close> with another step \<open>s'\<close> has the steps
  of \<open>P\<close> with \<open>s'\<close> appended, and the first child still has its own.
\<close>

theorem extend_appends_and_preserves:
  assumes "P < length st"
  shows "(case extend P s st of
            (C, st') \<Rightarrow>
              st' ! C = st ! P @ [s] \<and> st' ! P = st ! P \<and> C \<noteq> P \<and>
              (\<forall>a < length st. st' ! a = st ! a) \<and>
              (case extend P s' st' of
                 (D, st'') \<Rightarrow>
                   st'' ! D = st ! P @ [s'] \<and> st'' ! C = st ! P @ [s] \<and>
                   st'' ! P = st ! P \<and> D \<noteq> C \<and> D \<noteq> P))"
proof -
  let ?st' = "st @ [st ! P, st ! P @ [s]]"
  have first: "extend P s st = (Suc (length st), ?st')"
    using assms by (rule extend_eq)
  have P': "P < length ?st'" using assms by simp
  have P_same: "?st' ! P = st ! P" using assms by (simp add: nth_append)
  have second: "extend P s' ?st' = (Suc (length ?st'), ?st' @ [st ! P, st ! P @ [s']])"
    using extend_eq [OF P', of s'] P_same by simp
  show ?thesis
    using assms by (simp add: first second nth_append)
qed

text \<open>
  The base procedure with one step \<^verbatim>\<open>base\<close>, extended once with \<^verbatim>\<open>auth\<close> and once with
  \<^verbatim>\<open>admin\<close>: three independent sequences.
\<close>

theorem extend_appends_and_preserves_witness:
  "(case extend 0 ''auth'' [[''base'']] of
      (C, st') \<Rightarrow>
        (case extend 0 ''admin'' st' of
           (D, st'') \<Rightarrow>
             st'' ! 0 = [''base''] \<and> st'' ! C = [''base'', ''auth''] \<and>
             st'' ! D = [''base'', ''admin'']))"
proof -
  have h: "(0::nat) < length [[''base'']]" by simp
  from extend_appends_and_preserves [OF h, of "''auth''" "''admin''"]
  show ?thesis by (auto split: prod.splits)
qed

subsection \<open>The finalised chain\<close>

lemma invoked_append: "invoked (a @ b) = invoked a @ invoked b"
  by (induction a rule: invoked.induct) simp_all

lemma failures_append: "failures (a @ b) = failures a @ failures b"
  by (induction a rule: failures.induct) simp_all

lemma stepLayer_success:
  "mwFunction req locals = Inr result \<Longrightarrow>
     stepLayer mwFunction req locals = (spread locals result, Next)"
  by (simp add: stepLayer_def spread_def)

lemma stepLayer_failure:
  "mwFunction req locals = Inl err \<Longrightarrow> stepLayer mwFunction req locals = (locals, NextErr err)"
  by (simp add: stepLayer_def)

text \<open>
  A prefix of steps that all succeed: each is entered once, in order, none reaches the
  error handler, and the rest of the chain starts with the accumulated context.
\<close>

lemma dispatch_successful_prefix:
  "accumulate pre req locals = Some ctx \<Longrightarrow>
     \<exists>tr. dispatch (map stepLayer pre @ rest) i req locals =
             tr @ dispatch rest (i + length pre) req ctx \<and>
           invoked tr = [i..<i + length pre] \<and> failures tr = [] \<and>
           (\<forall>e \<in> set tr. \<exists>j l. e = Invoked j l)"
proof (induction pre arbitrary: i locals)
  case Nil
  then show ?case by simp
next
  case (Cons mw pre)
  from Cons.prems obtain result where r: "mw req locals = Inr result"
    and acc: "accumulate pre req (spread locals result) = Some ctx"
    by (cases "mw req locals") simp_all
  from Cons.IH [OF acc, of "Suc i"] obtain tr where
    tr: "dispatch (map stepLayer pre @ rest) (Suc i) req (spread locals result) =
           tr @ dispatch rest (Suc i + length pre) req ctx"
    and inv: "invoked tr = [Suc i..<Suc i + length pre]" and fl: "failures tr = []"
    and shape: "\<forall>e \<in> set tr. \<exists>j l. e = Invoked j l"
    by blast
  have "dispatch (map stepLayer (mw # pre) @ rest) i req locals =
          (Invoked i locals # tr) @ dispatch rest (i + length (mw # pre)) req ctx"
    using tr by (simp add: stepLayer_success [of mw req locals result, OF r])
  moreover have "invoked (Invoked i locals # tr) = [i..<i + length (mw # pre)]"
  proof -
    have "[i..<i + length (mw # pre)] = i # [Suc i..<Suc i + length pre]"
      by (simp add: upt_conv_Cons del: upt_Suc)
    with inv show ?thesis by (simp del: upt_Suc)
  qed
  moreover have "failures (Invoked i locals # tr) = []" using fl by simp
  moreover have "\<forall>e \<in> set (Invoked i locals # tr). \<exists>j l. e = Invoked j l"
    using shape by simp
  ultimately show ?case by blast
qed

lemma dispatch_failing_step:
  "mw req ctx = Inl err \<Longrightarrow> expressNext err = ToErrorHandler \<Longrightarrow>
     dispatch (stepLayer mw # rest) i req ctx = [Invoked i ctx, ErrorHandler err]"
  by (simp add: stepLayer_failure)

lemma dispatch_handler:
  "dispatch [handlerLayer handler'] i req ctx =
     Invoked i ctx #
       (case handler' req ctx of
          Inr result \<Rightarrow> [Responded result]
        | Inl err \<Rightarrow>
            (case expressNext err of
               ToErrorHandler \<Rightarrow> [ErrorHandler err]
             | EnterNextLayer \<Rightarrow> [LeftChain]
             | LeaveRouter \<Rightarrow> [LeftChain]))"
  by (cases "handler' req ctx"; cases "expressNext (projl (handler' req ctx))")
     (simp_all add: handlerLayer_def)

lemma expressNext_Error:
  "expressNext (Error msg) = ToErrorHandler" "expressNext (ERPCError e) = ToErrorHandler"
  by (simp_all add: expressNext_def)

text \<open>
  A failure that Express takes for an error stops the chain. When the steps before a step
  all succeed and that step rejects with \<open>err\<close>, and \<open>err\<close> is a value that \<^verbatim>\<open>next\<close> reads
  as an error (every \<^verbatim>\<open>Error\<close> object, so every \<^verbatim>\<open>ERPCError\<close>): the layers entered are
  exactly those up to the failing step, the trace ends where the error handler receives
  \<open>err\<close>, that is the only failure it receives, and the chain sends no response. When
  every step succeeds, the terminal handler (the last layer) is entered, once, with the
  accumulated context.
\<close>

lemma error_stops_chain:
  "(accumulate pre req locals = Some ctx \<and> mw req ctx = Inl err \<and>
    expressNext err = ToErrorHandler \<longrightarrow>
      invoked (dispatch (use (pre @ mw # post) handler') 0 req locals) = [0..<Suc (length pre)] \<and>
      failures (dispatch (use (pre @ mw # post) handler') 0 req locals) = [err] \<and>
      last (dispatch (use (pre @ mw # post) handler') 0 req locals) = ErrorHandler err \<and>
      (\<forall>result. Responded result \<notin> set (dispatch (use (pre @ mw # post) handler') 0 req locals))) \<and>
   (accumulate previous req locals = Some ctx \<longrightarrow>
      (\<exists>tr. dispatch (use previous handler') 0 req locals =
               tr @ dispatch [handlerLayer handler'] (length previous) req ctx \<and>
             hd (dispatch [handlerLayer handler'] (length previous) req ctx) =
               Invoked (length previous) ctx \<and>
             invoked tr = [0..<length previous] \<and> failures tr = []))"
proof (intro conjI impI)
  assume h: "accumulate pre req locals = Some ctx \<and> mw req ctx = Inl err \<and>
    expressNext err = ToErrorHandler"
  let ?rest = "stepLayer mw # map stepLayer post @ [handlerLayer handler']"
  have layers: "use (pre @ mw # post) handler' = map stepLayer pre @ ?rest"
    by (simp add: use_def)
  from h dispatch_successful_prefix [of pre req locals ctx ?rest 0] obtain tr where
    tr: "dispatch (map stepLayer pre @ ?rest) 0 req locals =
           tr @ dispatch ?rest (length pre) req ctx"
    and inv: "invoked tr = [0..<length pre]" and fl: "failures tr = []"
    and shape: "\<forall>e \<in> set tr. \<exists>j l. e = Invoked j l"
    by auto
  from h have fails: "mw req ctx = Inl err" and isError: "expressNext err = ToErrorHandler"
    by simp_all
  have stop: "dispatch ?rest (length pre) req ctx =
      [Invoked (length pre) ctx, ErrorHandler err]"
    using dispatch_failing_step
            [of mw req ctx err "map stepLayer post @ [handlerLayer handler']" "length pre",
             OF fails isError]
    by simp
  have whole: "dispatch (use (pre @ mw # post) handler') 0 req locals =
      tr @ [Invoked (length pre) ctx, ErrorHandler err]"
    unfolding layers tr stop ..
  show "invoked (dispatch (use (pre @ mw # post) handler') 0 req locals) = [0..<Suc (length pre)]"
    unfolding whole by (simp add: invoked_append inv)
  show "failures (dispatch (use (pre @ mw # post) handler') 0 req locals) = [err]"
    unfolding whole by (simp add: failures_append fl)
  show "last (dispatch (use (pre @ mw # post) handler') 0 req locals) = ErrorHandler err"
    unfolding whole by simp
  show "\<forall>result. Responded result \<notin> set (dispatch (use (pre @ mw # post) handler') 0 req locals)"
    unfolding whole using shape by auto
next
  assume h: "accumulate previous req locals = Some ctx"
  from dispatch_successful_prefix [OF h, of "[handlerLayer handler']" 0] obtain tr where
    tr: "dispatch (map stepLayer previous @ [handlerLayer handler']) 0 req locals =
           tr @ dispatch [handlerLayer handler'] (length previous) req ctx"
    and inv: "invoked tr = [0..<length previous]" and fl: "failures tr = []"
    by auto
  have "hd (dispatch [handlerLayer handler'] (length previous) req ctx) =
      Invoked (length previous) ctx"
    by (simp add: dispatch_handler)
  with tr inv fl show "\<exists>tr. dispatch (use previous handler') 0 req locals =
               tr @ dispatch [handlerLayer handler'] (length previous) req ctx \<and>
             hd (dispatch [handlerLayer handler'] (length previous) req ctx) =
               Invoked (length previous) ctx \<and>
             invoked tr = [0..<length previous] \<and> failures tr = []"
    unfolding use_def by blast
qed

text \<open>
  Claim C2: when a step of a finalised chain fails, no later step and not the terminal
  handler runs, and the error handler receives exactly that one failure. The wrapper of a
  step hands whatever the step rejects with to \<^verbatim>\<open>next\<close>
  (\<^verbatim>\<open>.catch(next)\<close>, commented "Send the error to the root level error handler"), and
  \<^verbatim>\<open>next\<close> reads a falsy argument as no error. A chain of two steps whose first step
  rejects with \<^verbatim>\<open>undefined\<close>: the second step runs, the terminal handler runs and answers,
  and the error handler receives nothing.
\<close>

theorem falsy_rejection_continues_chain:
  "dispatch (use [\<lambda>req locals. Inl (NonError None), \<lambda>req locals. Inr [(''x'', JNull)]]
              (\<lambda>req locals. Inr (JString ''ok''))) 0 () [] =
     [Invoked 0 [], Invoked 1 [], Invoked 2 [(''x'', JNull)], Responded (JString ''ok'')] \<and>
   invoked (dispatch (use [\<lambda>req locals. Inl (NonError None), \<lambda>req locals. Inr [(''x'', JNull)]]
              (\<lambda>req locals. Inr (JString ''ok''))) 0 () []) = [0, 1, 2] \<and>
   failures (dispatch (use [\<lambda>req locals. Inl (NonError None), \<lambda>req locals. Inr [(''x'', JNull)]]
              (\<lambda>req locals. Inr (JString ''ok''))) 0 () []) = []"
  by (simp add: use_def stepLayer_def handlerLayer_def expressNext_def)

lemma stepLayer_lookup:
  assumes "mwFunction req locals = Inr result" and "distinct (map fst result)"
  shows "\<exists>locals'. stepLayer mwFunction req locals = (locals', Next) \<and>
           (\<forall>k. map_of locals' k =
                  (case map_of result k of Some v \<Rightarrow> Some v | None \<Rightarrow> map_of locals k))"
proof (intro exI conjI allI)
  show "stepLayer mwFunction req locals = (spread locals result, Next)"
    using assms(1) by (rule stepLayer_success)
next
  fix k
  show "map_of (spread locals result) k =
      (case map_of result k of Some v \<Rightarrow> Some v | None \<Rightarrow> map_of locals k)"
    using assms(2) by (rule map_of_spread)
qed

text \<open>
  Claim C9. When a step succeeds, the context after it holds, for each key the step
  returned, the returned value, replacing whatever was there (a value is replaced as a
  whole, never merged into), and every other key as before. A chain of two steps
  returning \<^verbatim>\<open>{a: 1}\<close> and then \<^verbatim>\<open>{a: 2}\<close> enters the terminal handler with the
  context \<^verbatim>\<open>{a: 2}\<close>.
\<close>

theorem context_merge_last_writer_wins:
  "(mwFunction req locals = Inr result \<and> distinct (map fst result) \<longrightarrow>
      (\<exists>locals'. stepLayer mwFunction req locals = (locals', Next) \<and>
         (\<forall>k. map_of locals' k =
                (case map_of result k of Some v \<Rightarrow> Some v | None \<Rightarrow> map_of locals k)))) \<and>
   dispatch (use [\<lambda>req locals. Inr [(''a'', JNumber 1)], \<lambda>req locals. Inr [(''a'', JNumber 2)]]
               handler') 0 req [] =
     [Invoked 0 [], Invoked 1 [(''a'', JNumber 1)], Invoked 2 [(''a'', JNumber 2)]] @
       (case handler' req [(''a'', JNumber 2)] of
          Inr r \<Rightarrow> [Responded r]
        | Inl err \<Rightarrow>
            (case expressNext err of
               ToErrorHandler \<Rightarrow> [ErrorHandler err]
             | EnterNextLayer \<Rightarrow> [LeftChain]
             | LeaveRouter \<Rightarrow> [LeftChain]))"
proof (intro conjI impI)
  assume "mwFunction req locals = Inr result \<and> distinct (map fst result)"
  then show "\<exists>locals'. stepLayer mwFunction req locals = (locals', Next) \<and>
         (\<forall>k. map_of locals' k =
                (case map_of result k of Some v \<Rightarrow> Some v | None \<Rightarrow> map_of locals k))"
    using stepLayer_lookup [of mwFunction req locals result] by blast
next
  show "dispatch (use [\<lambda>req locals. Inr [(''a'', JNumber 1)], \<lambda>req locals. Inr [(''a'', JNumber 2)]]
               handler') 0 req [] =
     [Invoked 0 [], Invoked 1 [(''a'', JNumber 1)], Invoked 2 [(''a'', JNumber 2)]] @
       (case handler' req [(''a'', JNumber 2)] of
          Inr r \<Rightarrow> [Responded r]
        | Inl err \<Rightarrow>
            (case expressNext err of
               ToErrorHandler \<Rightarrow> [ErrorHandler err]
             | EnterNextLayer \<Rightarrow> [LeftChain]
             | LeaveRouter \<Rightarrow> [LeftChain]))"
    by (simp add: use_def stepLayer_def handlerLayer_def split: sum.split routing.split)
qed

text \<open>
  A step returning \<^verbatim>\<open>{a: {y: 2}}\<close> over the context \<^verbatim>\<open>{a: {x: 1}, b: true}\<close>: the value
  of \<^verbatim>\<open>a\<close> is the new object, without \<^verbatim>\<open>x\<close>, and \<^verbatim>\<open>b\<close> is untouched.
\<close>

theorem context_merge_last_writer_wins_witness:
  "stepLayer (\<lambda>req locals. Inr [(''a'', JObject [(''y'', JNumber 2)])]) ()
       [(''a'', JObject [(''x'', JNumber 1)]), (''b'', JBool True)] =
     ([(''a'', JObject [(''y'', JNumber 2)]), (''b'', JBool True)], Next)"
proof -
  let ?mw = "\<lambda>(req :: unit) (locals :: json dict).
      Inr [(''a'', JObject [(''y'', JNumber 2)])] :: thrown + json dict"
  let ?locals = "[(''a'', JObject [(''x'', JNumber 1)]), (''b'', JBool True)]"
  have h: "?mw () ?locals = Inr [(''a'', JObject [(''y'', JNumber 2)])] \<and>
      distinct (map fst [(''a'', JObject [(''y'', JNumber 2)])])" by simp
  from context_merge_last_writer_wins
         [of ?mw "()" ?locals "[(''a'', JObject [(''y'', JNumber 2)])]"] h
  obtain locals' :: "json dict" where
    "stepLayer ?mw () ?locals = (locals', Next)" by blast
  then show ?thesis by (simp add: stepLayer_def)
qed


section \<open>Connections\<close>

subsection \<open>The upgrade\<close>

text \<open>
  Within the limits of a close frame the socket is closed as the rejection says. When the
  request matches an endpoint and its setup handler rejects with \<open>err\<close>, the code 4000 plus
  the status of \<open>err\<close> is a close code the socket accepts, and the serialisation of
  \<^verbatim>\<open>{ error }\<close> is at most 123 bytes long: the last call on the socket is \<^verbatim>\<open>close\<close> with
  that code and that reason, and it takes effect. When the setup handler resolves, the
  sentinel text is sent instead.
\<close>

lemma setup_failure_closes_socket_within_limits:
  "(matchPathToEndpoint compiledWsRouter segments = Some endpoint \<and>
    handler (getValue endpoint) \<lparr>socket = ws, socketEventHandlerMap = Map.empty\<rparr>
      (variables endpoint) query = (Some err, conn) \<and>
    isValidStatusCode (4000 + status (transformERPCError err)) \<and>
    length (JSON_stringify (JObject [(''error'', error (transformERPCError err))])) \<le> 123 \<longrightarrow>
      createWebSocketHandler compiledWsRouter segments query ws =
        Some (conn\<lparr>socket := socket conn @
          [Close (4000 + status (transformERPCError err))
             (JSON_stringify (JObject [(''error'', error (transformERPCError err))]))]\<rparr>, None)) \<and>
   (matchPathToEndpoint compiledWsRouter segments = Some endpoint \<and>
    handler (getValue endpoint) \<lparr>socket = ws, socketEventHandlerMap = Map.empty\<rparr>
      (variables endpoint) query = (None, conn) \<longrightarrow>
      createWebSocketHandler compiledWsRouter segments query ws =
        Some (conn\<lparr>socket := socket conn @ [Send ''@scinorandex/erpc -- stabilize'']\<rparr>, None))"
  by (simp add: createWebSocketHandler_def Let_def ws_close_def)

text \<open>
  Claim C5: when the setup handler fails with an error of status \<open>S\<close>, the socket is closed
  with the code 4000 + \<open>S\<close> and the reason \<^verbatim>\<open>{"error": ...}\<close>; a failure of kind
  \<^verbatim>\<open>FORBIDDEN\<close> closes it with 4403. The code does so for a short message only. A
  connection route \<^verbatim>\<open>/gateway\<close> whose setup handler rejects with \<^verbatim>\<open>FORBIDDEN\<close> and a
  message of 89 bytes: the reason is 132 bytes long, \<^verbatim>\<open>ws.close(4403, reason)\<close> throws
  inside the callback given to \<^verbatim>\<open>catch\<close>, no call on the socket takes effect, and the
  socket stays open. The same rejection with the message \<^verbatim>\<open>banned\<close> closes it with 4403.
\<close>

theorem long_reason_leaves_socket_open:
  "map_option (\<lambda>(conn, leftRejected). (socket conn, leftRejected))
     (createWebSocketHandler
        [([''gateway''], Fn \<lparr>validators = Map.empty,
            handler = (\<lambda>conn params query.
              (Some (ERPCError \<lparr>code = FORBIDDEN,
                 message = ''You may not open this gateway: the account is suspended until an administrator reviews it'',
                 customCode = None\<rparr>),
               conn))\<rparr>)]
        [''gateway''] [] []) =
     Some ([], Some (Error ''The message must not be greater than 123 bytes'')) \<and>
   length (JSON_stringify (JObject [(''error'',
      JObject [(''type'', JString ''FORBIDDEN''),
               (''message'', JString ''You may not open this gateway: the account is suspended until an administrator reviews it'')])])) = 132 \<and>
   map_option (\<lambda>(conn, leftRejected). (socket conn, leftRejected))
     (createWebSocketHandler
        [([''gateway''], Fn \<lparr>validators = Map.empty,
            handler = (\<lambda>conn params query.
              (Some (ERPCError \<lparr>code = FORBIDDEN, message = ''banned'', customCode = None\<rparr>),
               conn))\<rparr>)]
        [''gateway''] [] []) =
     Some ([Close 4403 (JSON_stringify (JObject [(''error'',
              JObject [(''type'', JString ''FORBIDDEN''), (''message'', JString ''banned'')])]))],
           None)"
  by (simp add: createWebSocketHandler_def matchPathToEndpoint.simps transformERPCError_def
        ws_close_def isValidStatusCode_def quote_def escapeChar_def)

subsection \<open>Inbound frames\<close>

lemma messageListener_unhandled:
  "unhandled (messageListener JSON_parse validators' conn stringified) = None"
  by (simp add: messageListener_def Let_def split: option.splits prod.splits)

text \<open>
  Claim C4. A frame that \<^verbatim>\<open>JSON.parse\<close> rejects, or that is not an object with a string
  \<^verbatim>\<open>eventName\<close>, or that names an event without a registered handler, or whose payload
  the validator of the event rejects: no handler is awaited, the connection is as before
  (no call on the socket, so nothing is sent and the socket is not closed), what was
  thrown went to the empty \<^verbatim>\<open>catch\<close> clause, and the listener rejects with nothing. So
  it is for the frame \<^verbatim>\<open>{"eventName":"ping","data":{}}\<close> when no handler is registered
  for \<^verbatim>\<open>ping\<close>.
\<close>

theorem rejected_frame_is_dropped:
  "(JSON_parse stringified = None \<or>
    (\<exists>parsed. JSON_parse stringified = Some parsed \<and>
       (reqValidator parsed = None \<or>
        (\<exists>eventName data. reqValidator parsed = Some (eventName, data) \<and>
           (socketEventHandlerMap conn eventName = None \<or>
            (\<exists>v. validators' eventName = Some v \<and> v data = None))))) \<longrightarrow>
      awaited (messageListener JSON_parse validators' conn stringified) = None \<and>
      connection (messageListener JSON_parse validators' conn stringified) = conn \<and>
      caught (messageListener JSON_parse validators' conn stringified) \<noteq> None \<and>
      unhandled (messageListener JSON_parse validators' conn stringified) = None) \<and>
   (JSON_parse stringified =
      Some (JObject [(''eventName'', JString ''ping''), (''data'', JObject [])]) \<and>
    socketEventHandlerMap conn ''ping'' = None \<longrightarrow>
      messageListener JSON_parse validators' conn stringified =
        \<lparr>connection = conn, awaited = None, caught = Some (HandlerMissing ''ping''),
         unhandled = None\<rparr>)"
proof (intro conjI impI)
  assume "JSON_parse stringified = None \<or>
    (\<exists>parsed. JSON_parse stringified = Some parsed \<and>
       (reqValidator parsed = None \<or>
        (\<exists>eventName data. reqValidator parsed = Some (eventName, data) \<and>
           (socketEventHandlerMap conn eventName = None \<or>
            (\<exists>v. validators' eventName = Some v \<and> v data = None)))))"
  then consider (unparsable) "JSON_parse stringified = None"
    | (envelope) parsed where "JSON_parse stringified = Some parsed" "reqValidator parsed = None"
    | (missing) parsed eventName data where "JSON_parse stringified = Some parsed"
        "reqValidator parsed = Some (eventName, data)" "socketEventHandlerMap conn eventName = None"
    | (payload) parsed eventName data v h where "JSON_parse stringified = Some parsed"
        "reqValidator parsed = Some (eventName, data)"
        "socketEventHandlerMap conn eventName = Some h"
        "validators' eventName = Some v" "v data = None"
    by (cases "JSON_parse stringified") (auto, metis option.exhaust)
  then have "messageListener JSON_parse validators' conn stringified \<in>
      {\<lparr>connection = conn, awaited = None, caught = Some r, unhandled = None\<rparr> | r. True}"
    by cases (simp_all add: messageListener_def)
  then obtain r where r: "messageListener JSON_parse validators' conn stringified =
      \<lparr>connection = conn, awaited = None, caught = Some r, unhandled = None\<rparr>"
    by blast
  show "awaited (messageListener JSON_parse validators' conn stringified) = None"
    unfolding r by simp
  show "connection (messageListener JSON_parse validators' conn stringified) = conn"
    unfolding r by simp
  show "caught (messageListener JSON_parse validators' conn stringified) \<noteq> None"
    unfolding r by simp
  show "unhandled (messageListener JSON_parse validators' conn stringified) = None"
    unfolding r by simp
next
  assume "JSON_parse stringified =
      Some (JObject [(''eventName'', JString ''ping''), (''data'', JObject [])]) \<and>
    socketEventHandlerMap conn ''ping'' = None"
  then show "messageListener JSON_parse validators' conn stringified =
        \<lparr>connection = conn, awaited = None, caught = Some (HandlerMissing ''ping''),
         unhandled = None\<rparr>"
    by (simp add: messageListener_def reqValidator_def)
qed

text \<open>
  The frame \<^verbatim>\<open>{"eventName":"ping","data":{}}\<close> on a connection without handlers: dropped.
\<close>

theorem rejected_frame_is_dropped_witness:
  "messageListener (\<lambda>s. Some (JObject [(''eventName'', JString ''ping''), (''data'', JObject [])]))
       Map.empty \<lparr>socket = [], socketEventHandlerMap = Map.empty\<rparr> ''frame'' =
     \<lparr>connection = \<lparr>socket = [], socketEventHandlerMap = Map.empty\<rparr>, awaited = None,
      caught = Some (HandlerMissing ''ping''), unhandled = None\<rparr>"
proof -
  let ?parse = "\<lambda>s :: string. Some (JObject [(''eventName'', JString ''ping''), (''data'', JObject [])])"
  let ?conn = "\<lparr>socket = [], socketEventHandlerMap = Map.empty\<rparr>"
  have h: "?parse ''frame'' =
      Some (JObject [(''eventName'', JString ''ping''), (''data'', JObject [])]) \<and>
    socketEventHandlerMap ?conn ''ping'' = None" by simp
  from rejected_frame_is_dropped [of ?parse "''frame''" ?conn Map.empty] h
  show ?thesis by blast
qed

text \<open>
  Claim C10, as amended. The invocation of the handler stands inside the \<^verbatim>\<open>try\<close> block
  of the message listener. When a registered handler, called with the validated payload,
  rejects with \<open>err\<close>, the rejection goes to the empty \<^verbatim>\<open>catch\<close> clause and is
  discarded: the listener rejects with nothing, and issues no call on the socket beyond
  what the handler itself did.
\<close>

theorem handler_failure_is_swallowed:
  "JSON_parse stringified = Some parsed \<and> reqValidator parsed = Some (eventName, data) \<and>
   socketEventHandlerMap conn eventName = Some handler' \<and>
   validators' eventName = Some v \<and> v data = Some parsedData \<and>
   handler' parsedData (socket conn) = (Some err, ws) \<longrightarrow>
     messageListener JSON_parse validators' conn stringified =
       \<lparr>connection = conn\<lparr>socket := ws\<rparr>, awaited = Some (eventName, parsedData),
        caught = Some (HandlerRejected err), unhandled = None\<rparr>"
  by (simp add: messageListener_def)

text \<open>A handler for \<^verbatim>\<open>ping\<close> that rejects with an \<^verbatim>\<open>Error\<close>.\<close>

theorem handler_failure_is_swallowed_witness:
  "messageListener (\<lambda>s. Some (JObject [(''eventName'', JString ''ping''), (''data'', JObject [])]))
       [''ping'' \<mapsto> (\<lambda>d. d)]
       \<lparr>socket = [], socketEventHandlerMap = [''ping'' \<mapsto> (\<lambda>d ws. (Some (Error ''boom''), ws))]\<rparr>
       ''frame'' =
     \<lparr>connection =
        \<lparr>socket = [], socketEventHandlerMap = [''ping'' \<mapsto> (\<lambda>d ws. (Some (Error ''boom''), ws))]\<rparr>,
      awaited = Some (''ping'', JObject []),
      caught = Some (HandlerRejected (Error ''boom'')), unhandled = None\<rparr>"
proof -
  let ?parse = "\<lambda>s :: string. Some (JObject [(''eventName'', JString ''ping''), (''data'', JObject [])])"
  let ?h = "\<lambda>(d :: json) (ws :: WebSocket). (Some (Error ''boom''), ws)"
  let ?conn = "\<lparr>socket = [], socketEventHandlerMap = [''ping'' \<mapsto> ?h]\<rparr>"
  let ?v = "\<lambda>d :: json option. d"
  have h: "?parse ''frame'' =
        Some (JObject [(''eventName'', JString ''ping''), (''data'', JObject [])]) \<and>
      reqValidator (JObject [(''eventName'', JString ''ping''), (''data'', JObject [])]) =
        Some (''ping'', Some (JObject [])) \<and>
      socketEventHandlerMap ?conn ''ping'' = Some ?h \<and>
      [''ping'' \<mapsto> ?v] ''ping'' = Some ?v \<and> ?v (Some (JObject [])) = Some (JObject []) \<and>
      ?h (JObject []) (socket ?conn) = (Some (Error ''boom''), [])"
    by (simp add: reqValidator_def)
  from handler_failure_is_swallowed
         [of ?parse "''frame''" "JObject [(''eventName'', JString ''ping''), (''data'', JObject [])]"
             "''ping''" "Some (JObject [])" ?conn ?h "[''ping'' \<mapsto> ?v]" ?v "JObject []"
             "Error ''boom''" "[]"] h
  have "messageListener ?parse [''ping'' \<mapsto> ?v] ?conn ''frame'' =
       \<lparr>connection = ?conn\<lparr>socket := []\<rparr>, awaited = Some (''ping'', JObject []),
        caught = Some (HandlerRejected (Error ''boom'')), unhandled = None\<rparr>"
    by blast
  then show ?thesis by simp
qed

text \<open>
  Claim C10 as the specification words it fails: the rejection of the handler does not
  leave the listener. It reaches the \<^verbatim>\<open>catch\<close> clause, and the listener rejects with
  nothing.
\<close>

theorem handler_failure_counterexample:
  "caught (messageListener
       (\<lambda>s. Some (JObject [(''eventName'', JString ''ping''), (''data'', JObject [])]))
       [''ping'' \<mapsto> (\<lambda>d. d)]
       \<lparr>socket = [], socketEventHandlerMap = [''ping'' \<mapsto> (\<lambda>d ws. (Some (Error ''boom''), ws))]\<rparr>
       ''frame'') = Some (HandlerRejected (Error ''boom'')) \<and>
   unhandled (messageListener
       (\<lambda>s. Some (JObject [(''eventName'', JString ''ping''), (''data'', JObject [])]))
       [''ping'' \<mapsto> (\<lambda>d. d)]
       \<lparr>socket = [], socketEventHandlerMap = [''ping'' \<mapsto> (\<lambda>d ws. (Some (Error ''boom''), ws))]\<rparr>
       ''frame'') \<noteq> Some (HandlerRejected (Error ''boom''))"
  by (simp add: messageListener_def reqValidator_def)


end
